theory Spec2Isabelle
  imports Complex_Main "HOL-Library.AList"
begin

section \<open>Data model\<close>

text \<open>
  The program (\<^verbatim>\<open>src/main.py\<close>) is four checks over a pandas DataFrame that
  \<^verbatim>\<open>pd.read_csv\<close> has loaded.  A cell is a Python scalar or the missing value (NaN).
  Floating-point numbers are modelled by exact rationals: the checks only test them for
  equality and order.
\<close>

datatype cell = IntV int | FloatV rat | StrV string | BoolV bool | Missing

type_synonym series = "cell list"

text \<open>
  A DataFrame is its columns in order, each a name with the column's values.  A frame
  as \<^verbatim>\<open>read_csv\<close> builds it has at least one column, distinct column names and
  columns of one length (\<open>wf_dataframe\<close>).
\<close>

type_synonym dataframe = "(string \<times> series) list"

text \<open>
  The exceptions that leave a check.  Python raises \<^verbatim>\<open>KeyError\<close> both when
  \<^verbatim>\<open>df[columns]\<close> names absent columns (\<open>LookupError\<close>, with the absent names) and
  when \<^verbatim>\<open>.mode()[0]\<close> indexes an empty result (\<open>EmptyDomainError\<close>);
  \<^verbatim>\<open>reset_index\<close> raises \<^verbatim>\<open>ValueError\<close>.
\<close>

datatype error = LookupError "string list" | EmptyDomainError | ValueError string

definition columns :: "dataframe \<Rightarrow> string list" where
  "columns df = map fst df"

definition nrows :: "dataframe \<Rightarrow> nat" where
  "nrows df = (case df of [] \<Rightarrow> 0 | (c, xs) # rest \<Rightarrow> length xs)"

definition wf_dataframe :: "dataframe \<Rightarrow> bool" where
  "wf_dataframe df \<longleftrightarrow>
     df \<noteq> [] \<and> distinct (columns df) \<and> list_all (\<lambda>(c, xs). length xs = nrows df) df"

text \<open>\<^verbatim>\<open>df[col]\<close> for a column that is known to exist.\<close>

definition column :: "dataframe \<Rightarrow> string \<Rightarrow> series" where
  "column df c = (case map_of df c of None \<Rightarrow> [] | Some xs \<Rightarrow> xs)"

text \<open>The rows of a frame, each the tuple of its values in column order.\<close>

fun rows_of :: "dataframe \<Rightarrow> cell list list" where
  "rows_of [] = []"
| "rows_of [(c, xs)] = map (\<lambda>x. [x]) xs"
| "rows_of ((c, xs) # rest) = map2 (#) xs (rows_of rest)"

fun isnull :: "cell \<Rightarrow> bool" where
  "isnull Missing = True"
| "isnull c = False"

text \<open>The distinct values of a list, in the order of their first occurrence.\<close>

definition first_seen :: "'a list \<Rightarrow> 'a list" where
  "first_seen xs = rev (remdups (rev xs))"

section \<open>Null check\<close>

text \<open>
  \<^verbatim>\<open>def check_nulls(df, columns): return df[columns].isnull().sum()\<close>

  \<^verbatim>\<open>df[columns]\<close> with a list raises \<^verbatim>\<open>KeyError\<close> when a name of the list is not a
  column; the model keeps of the exception the absent names, each once, in the order
  requested.  Otherwise the result is a Series of counts indexed by the requested names,
  in the order requested.
\<close>

definition isnull_sum :: "series \<Rightarrow> nat" where
  "isnull_sum xs = length (filter isnull xs)"

definition check_nulls :: "dataframe \<Rightarrow> string list \<Rightarrow> error + (string \<times> nat) list" where
  "check_nulls df cs =
     (case first_seen (filter (\<lambda>c. c \<notin> set (columns df)) cs) of
        [] \<Rightarrow> Inr (map (\<lambda>c. (c, isnull_sum (column df c))) cs)
      | absent \<Rightarrow> Inl (LookupError absent))"

section \<open>Duplicate check\<close>

text \<open>
  \<^verbatim>\<open>dupdf = df[df.duplicated(keep=False)].groupby(list(df.columns)).size()
            .reset_index(name='dup_count')\<close>

  \<^item> \<open>duplicated\<close> is \<^verbatim>\<open>duplicated(keep=False)\<close>: the mask of the rows that occur more
    than once; pandas takes two missing values of one column for equal here.
  \<^item> \<open>boolean_index\<close> is \<^verbatim>\<open>df[mask]\<close>.
  \<^item> \<open>groupby_size\<close> is \<^verbatim>\<open>groupby(keys).size()\<close> over all columns with the default
    \<^verbatim>\<open>dropna=True\<close>: a row with a missing value in a key column belongs to no group.
    pandas lists the groups sorted by key; the model lists them by occurrence, and
    nothing below depends on their order.
  \<^item> \<open>reset_index\<close> turns the keys into columns beside the new column \<^verbatim>\<open>dup_count\<close>,
    and raises \<^verbatim>\<open>ValueError\<close> when a key column already has that name.
\<close>

definition duplicated :: "'a list \<Rightarrow> bool list" where
  "duplicated rs = map (\<lambda>r. 2 \<le> count_list rs r) rs"

definition boolean_index :: "'a list \<Rightarrow> bool list \<Rightarrow> 'a list" where
  "boolean_index rs flags = map fst (filter snd (zip rs flags))"

definition groupby_size :: "cell list list \<Rightarrow> (cell list \<times> nat) list" where
  "groupby_size rs =
     (let kept = filter (\<lambda>r. \<not> list_ex isnull r) rs
      in map (\<lambda>k. (k, count_list kept k)) (remdups kept))"

definition reset_index ::
  "string \<Rightarrow> string list \<Rightarrow> (cell list \<times> nat) list \<Rightarrow> error + (cell list \<times> nat) list" where
  "reset_index name keys groups =
     (if name \<in> set keys then Inl (ValueError (''cannot insert '' @ name @ '', already exists''))
      else Inr groups)"

definition check_duplicates :: "dataframe \<Rightarrow> error + (cell list \<times> nat) list" where
  "check_duplicates df =
     (let dupdf = reset_index ''dup_count'' (columns df)
                    (groupby_size (boolean_index (rows_of df) (duplicated (rows_of df))))
      in dupdf)"

section \<open>Data type check\<close>

text \<open>
  \<^verbatim>\<open>for col, expected_type in expected_types.items():
      if col in df.columns:
          actual_type = df[col].dropna().map(type).mode()[0].__name__
          if actual_type != expected_type:
              mismatches[col] = f"Expected {expected_type}, Found {actual_type}"
  return mismatches\<close>

  A dictionary is an association list in insertion order; its keys are distinct.
  \<^verbatim>\<open>d[k] = v\<close> is \<^const>\<open>AList.update\<close>.  \<open>mode\<close> lists the most frequent values by
  first occurrence (type objects cannot be sorted), and \<^verbatim>\<open>[0]\<close> on an empty mode
  raises.
\<close>

datatype pytype = PyInt | PyFloat | PyStr | PyBool

fun type_of_cell :: "cell \<Rightarrow> pytype" where
  "type_of_cell (IntV i) = PyInt"
| "type_of_cell (FloatV f) = PyFloat"
| "type_of_cell (StrV s) = PyStr"
| "type_of_cell (BoolV b) = PyBool"
| "type_of_cell Missing = PyFloat"

fun type_name :: "pytype \<Rightarrow> string" where
  "type_name PyInt = ''int''"
| "type_name PyFloat = ''float''"
| "type_name PyStr = ''str''"
| "type_name PyBool = ''bool''"

definition dropna :: "series \<Rightarrow> series" where
  "dropna xs = filter (\<lambda>x. \<not> isnull x) xs"

definition mode :: "'a list \<Rightarrow> 'a list" where
  "mode xs =
     filter (\<lambda>k. list_all (\<lambda>y. count_list xs y \<le> count_list xs k) xs) (first_seen xs)"

definition dominant_type :: "series \<Rightarrow> error + string" where
  "dominant_type xs =
     (case mode (map type_of_cell (dropna xs)) of
        [] \<Rightarrow> Inl EmptyDomainError
      | t # ts \<Rightarrow> Inr (type_name t))"

fun check_data_types_loop ::
  "dataframe \<Rightarrow> (string \<times> string) list \<Rightarrow> (string \<times> string) list
     \<Rightarrow> error + (string \<times> string) list" where
  "check_data_types_loop df [] mismatches = Inr mismatches"
| "check_data_types_loop df ((col, expected_type) # rest) mismatches =
     (case map_of df col of
        None \<Rightarrow> check_data_types_loop df rest mismatches
      | Some xs \<Rightarrow>
          (case dominant_type xs of
             Inl e \<Rightarrow> Inl e
           | Inr actual_type \<Rightarrow>
               if actual_type \<noteq> expected_type
               then check_data_types_loop df rest
                      (AList.update col
                         (''Expected '' @ expected_type @ '', Found '' @ actual_type) mismatches)
               else check_data_types_loop df rest mismatches))"

definition check_data_types ::
  "dataframe \<Rightarrow> (string \<times> string) list \<Rightarrow> error + (string \<times> string) list" where
  "check_data_types df expected_types = check_data_types_loop df expected_types []"

section \<open>Range check\<close>

text \<open>
  \<^verbatim>\<open>for col, (min_val, max_val) in range_rules.items():
      if col in df.columns:
          try:
              df[col] = pd.to_numeric(df[col], errors='coerce')
              invalid = df[(df[col] < min_val) | (df[col] > max_val)]
              if not invalid.empty:
                  violations[col] = invalid[[col]]
          except Exception as e:
              violations[col] = f"Error: {e}"
  return violations\<close>

  The check assigns to \<^verbatim>\<open>df\<close>, so the model returns the frame with the mapping.
  The library call \<^verbatim>\<open>pd.to_numeric(s, errors='coerce')\<close> is the parameter
  \<open>to_numeric\<close> of the model: \<open>Inl msg\<close> is an exception whose text is \<open>msg\<close>,
  \<open>Inr ys\<close> the converted column.  \<open>pd_to_numeric\<close> below is what pandas computes,
  given how it reads a string as a number (\<open>parse\<close>).
\<close>

datatype number = PInt int | PFloat rat

fun coerce :: "(string \<Rightarrow> number option) \<Rightarrow> cell \<Rightarrow> cell" where
  "coerce parse (StrV s) =
     (case parse s of None \<Rightarrow> Missing | Some (PInt i) \<Rightarrow> IntV i | Some (PFloat f) \<Rightarrow> FloatV f)"
| "coerce parse c = c"

fun is_float :: "cell \<Rightarrow> bool" where
  "is_float (FloatV f) = True"
| "is_float c = False"

fun is_int :: "cell \<Rightarrow> bool" where
  "is_int (IntV i) = True"
| "is_int c = False"

fun is_str :: "cell \<Rightarrow> bool" where
  "is_str (StrV s) = True"
| "is_str c = False"

fun as_float :: "cell \<Rightarrow> cell" where
  "as_float (IntV i) = FloatV (of_int i)"
| "as_float (BoolV b) = FloatV (if b then 1 else 0)"
| "as_float c = c"

fun as_int :: "cell \<Rightarrow> cell" where
  "as_int (BoolV b) = IntV (if b then 1 else 0)"
| "as_int c = c"

text \<open>
  The converted column has one dtype: float64 when a value is a float or missing,
  else int64 when a value is an integer, else the booleans as they are.
\<close>

definition pd_to_numeric :: "(string \<Rightarrow> number option) \<Rightarrow> series \<Rightarrow> series" where
  "pd_to_numeric parse xs =
     (let ys = map (coerce parse) xs
      in if list_ex (\<lambda>y. is_float y \<or> isnull y) ys then map as_float ys
         else if list_ex is_int ys then map as_int ys
         else ys)"

text \<open>
  The number a cell is compared as; a missing value compares false with every bound.
\<close>

fun cell_number :: "cell \<Rightarrow> rat option" where
  "cell_number (IntV i) = Some (of_int i)"
| "cell_number (FloatV f) = Some f"
| "cell_number (BoolV b) = Some (if b then 1 else 0)"
| "cell_number (StrV s) = None"
| "cell_number Missing = None"

definition outside :: "rat \<Rightarrow> rat \<Rightarrow> cell \<Rightarrow> bool" where
  "outside min_val max_val c =
     (case cell_number c of None \<Rightarrow> False | Some v \<Rightarrow> v < min_val \<or> v > max_val)"

text \<open>
  \<^verbatim>\<open>(s < min_val) | (s > max_val)\<close>: Python cannot order a string and a number, and
  the comparison of a column that holds a string raises \<^verbatim>\<open>TypeError\<close>.
\<close>

definition quoted :: "string \<Rightarrow> string" where
  "quoted s = CHR 0x27 # s @ [CHR 0x27]"

definition compare_mask :: "rat \<Rightarrow> rat \<Rightarrow> series \<Rightarrow> string + bool list" where
  "compare_mask min_val max_val xs =
     (if list_ex is_str xs
      then Inl (quoted ''<'' @ '' not supported between instances of '' @ quoted ''str''
                @ '' and '' @ quoted ''float'')
      else Inr (map (outside min_val max_val) xs))"

text \<open>
  An entry of the mapping: the violating rows reduced to the checked column (each with
  its row label), or the text of an exception.
\<close>

datatype range_result = Violations "(nat \<times> cell) list" | ErrorText string

type_synonym range_rules = "(string \<times> (rat \<times> rat)) list"

fun check_ranges_loop ::
  "(series \<Rightarrow> string + series) \<Rightarrow> range_rules \<Rightarrow> dataframe \<Rightarrow> (string \<times> range_result) list
     \<Rightarrow> dataframe \<times> (string \<times> range_result) list" where
  "check_ranges_loop to_numeric [] df violations = (df, violations)"
| "check_ranges_loop to_numeric ((col, (min_val, max_val)) # rest) df violations =
     (case map_of df col of
        None \<Rightarrow> check_ranges_loop to_numeric rest df violations
      | Some xs \<Rightarrow>
          (case to_numeric xs of
             Inl e \<Rightarrow>
               check_ranges_loop to_numeric rest df
                 (AList.update col (ErrorText (''Error: '' @ e)) violations)
           | Inr ys \<Rightarrow>
               (let df' = AList.update col ys df in
                case compare_mask min_val max_val ys of
                  Inl e \<Rightarrow>
                    check_ranges_loop to_numeric rest df'
                      (AList.update col (ErrorText (''Error: '' @ e)) violations)
                | Inr flags \<Rightarrow>
                    (let invalid = boolean_index (zip [0..<length ys] ys) flags in
                     if invalid \<noteq> []
                     then check_ranges_loop to_numeric rest df'
                            (AList.update col (Violations invalid) violations)
                     else check_ranges_loop to_numeric rest df' violations))))"

definition check_ranges ::
  "(series \<Rightarrow> string + series) \<Rightarrow> dataframe \<Rightarrow> range_rules
     \<Rightarrow> dataframe \<times> (string \<times> range_result) list" where
  "check_ranges to_numeric df range_rules = check_ranges_loop to_numeric range_rules df []"

section \<open>The checks on one loaded dataset\<close>

text \<open>
  The page runs the checks on the one frame \<^verbatim>\<open>df\<close> (lines 74 to 108).  A check takes
  the frame and leaves the frame the next check sees; only \<^verbatim>\<open>check_ranges\<close> has an
  assignment to it.
\<close>

datatype check =
    NullCheck "string list"
  | DuplicateCheck
  | TypeCheck "(string \<times> string) list"
  | RangeCheck range_rules

datatype report =
    Nulls "(string \<times> nat) list"
  | Duplicates "(cell list \<times> nat) list"
  | Mismatches "(string \<times> string) list"
  | RangeViolations "(string \<times> range_result) list"
  | Raised error

fun run_check :: "(series \<Rightarrow> string + series) \<Rightarrow> check \<Rightarrow> dataframe \<Rightarrow> dataframe \<times> report" where
  "run_check to_numeric (NullCheck cs) df =
     (df, case check_nulls df cs of Inl e \<Rightarrow> Raised e | Inr r \<Rightarrow> Nulls r)"
| "run_check to_numeric DuplicateCheck df =
     (df, case check_duplicates df of Inl e \<Rightarrow> Raised e | Inr r \<Rightarrow> Duplicates r)"
| "run_check to_numeric (TypeCheck expected_types) df =
     (df, case check_data_types df expected_types of Inl e \<Rightarrow> Raised e | Inr r \<Rightarrow> Mismatches r)"
| "run_check to_numeric (RangeCheck range_rules) df =
     (case check_ranges to_numeric df range_rules of (df', r) \<Rightarrow> (df', RangeViolations r))"

section \<open>Notions used in the statements\<close>


text \<open>
  What one range rule does to an existing column: the column it leaves in the frame,
  and the entry it writes, if any.
\<close>

definition range_column :: "(series \<Rightarrow> string + series) \<Rightarrow> series \<Rightarrow> series" where
  "range_column to_numeric xs = (case to_numeric xs of Inl e \<Rightarrow> xs | Inr ys \<Rightarrow> ys)"

definition range_entry ::
  "(series \<Rightarrow> string + series) \<Rightarrow> rat \<Rightarrow> rat \<Rightarrow> series \<Rightarrow> range_result option" where
  "range_entry to_numeric min_val max_val xs =
     (case to_numeric xs of
        Inl e \<Rightarrow> Some (ErrorText (''Error: '' @ e))
      | Inr ys \<Rightarrow>
          (case compare_mask min_val max_val ys of
             Inl e \<Rightarrow> Some (ErrorText (''Error: '' @ e))
           | Inr flags \<Rightarrow>
               (let invalid = boolean_index (zip [0..<length ys] ys) flags
                in if invalid \<noteq> [] then Some (Violations invalid) else None)))"

text \<open>
  The number the specification compares a cell as once its column is coerced (section
  4.4): a number is itself, a text is the number it reads as, and a missing value or a
  text that does not read as a number is none.  (A boolean counts as 0 or 1.)
\<close>

fun spec_number :: "(string \<Rightarrow> number option) \<Rightarrow> cell \<Rightarrow> rat option" where
  "spec_number parse (IntV n) = Some (of_int n)"
| "spec_number parse (FloatV f) = Some f"
| "spec_number parse (BoolV b) = Some (if b then 1 else 0)"
| "spec_number parse Missing = None"
| "spec_number parse (StrV s) =
     (case parse s of None \<Rightarrow> None | Some (PInt n) \<Rightarrow> Some (of_int n) | Some (PFloat f) \<Rightarrow> Some f)"

text \<open>A cell of a coerced column holds the number \<open>q\<close>, or is missing and holds none.\<close>

fun holds_number :: "cell \<Rightarrow> rat option \<Rightarrow> bool" where
  "holds_number (IntV n) q = (q = Some (of_int n))"
| "holds_number (FloatV f) q = (q = Some f)"
| "holds_number (BoolV b) q = (q = Some (if b then 1 else 0))"
| "holds_number Missing q = (q = None)"
| "holds_number (StrV s) q = False"


text \<open>A cell that is a number between the bounds of a rule.\<close>

fun in_bounds :: "rat \<Rightarrow> rat \<Rightarrow> cell \<Rightarrow> bool" where
  "in_bounds lo hi (IntV i) = (lo \<le> of_int i \<and> of_int i \<le> hi)"
| "in_bounds lo hi (FloatV f) = (lo \<le> f \<and> f \<le> hi)"
| "in_bounds lo hi c = False"

text \<open>
  The library call as pandas computes it: with \<^verbatim>\<open>errors='coerce'\<close> it raises nothing.
\<close>

abbreviation pandas :: "(string \<Rightarrow> number option) \<Rightarrow> series \<Rightarrow> string + series" where
  "pandas parse \<equiv> (\<lambda>s. Inr (pd_to_numeric parse s))"

section \<open>Example datasets\<close>

text \<open>
  The dataset of the specification's scenario, rows \<open>(1, x)\<close>, \<open>(5, x)\<close>, \<open>(1, x)\<close>,
  and a dataset with missing values and text in a numeric column.
\<close>

definition scenario_df :: dataframe where
  "scenario_df = [(''a'', [IntV 1, IntV 5, IntV 1]), (''b'', [StrV ''x'', StrV ''x'', StrV ''x''])]"

definition gaps_df :: dataframe where
  "gaps_df = [(''a'', [IntV 1, IntV 5, IntV 1]), (''b'', [StrV ''7'', Missing, StrV ''oops'']),
              (''c'', [Missing, Missing, Missing])]"

text \<open>A reading of strings as numbers that knows one string.\<close>

definition parse_seven :: "string \<Rightarrow> number option" where
  "parse_seven s = (if s = ''7'' then Some (PInt 7) else None)"

text \<open>
  A stand-in for the library call that raises on a column that holds text; it shows the
  \<^verbatim>\<open>except\<close> branch at work.
\<close>

definition fails_on_text :: "series \<Rightarrow> string + series" where
  "fails_on_text xs = (if list_ex is_str xs then Inl ''boom'' else Inr xs)"

text \<open>Datasets whose repeated rows have a missing value.\<close>

definition nan_pair_df :: dataframe where
  "nan_pair_df = [(''a'', [Missing, Missing]), (''b'', [StrV ''x'', StrV ''x''])]"

definition nan_groups_df :: dataframe where
  "nan_groups_df = [(''a'', [IntV 1, IntV 1, IntV 2, IntV 2]),
                    (''b'', [Missing, Missing, StrV ''y'', StrV ''y''])]"

section \<open>Properties of the null check\<close>

lemma isnull_iff: "isnull x \<longleftrightarrow> x = Missing"
  by (cases x) simp_all

lemma isnull_sum_count: "isnull_sum xs = length (filter (\<lambda>x. x = Missing) xs)"
proof -
  have "isnull = (\<lambda>x. x = Missing)" by (rule ext) (simp add: isnull_iff)
  then show ?thesis by (simp add: isnull_sum_def)
qed

lemma map_of_absent: "map_of df c = None \<longleftrightarrow> c \<notin> set (columns df)"
  by (simp add: columns_def map_of_eq_None_iff)

lemma set_first_seen: "set (first_seen xs) = set xs"
  by (simp add: first_seen_def)

lemma check_nulls_present:
  "set cs \<subseteq> set (columns df) \<Longrightarrow>
     check_nulls df cs = Inr (map (\<lambda>c. (c, isnull_sum (column df c))) cs)"
proof -
  assume "set cs \<subseteq> set (columns df)"
  then have "filter (\<lambda>c. c \<notin> set (columns df)) cs = []"
    by (auto simp: filter_empty_conv)
  then show ?thesis by (simp add: check_nulls_def first_seen_def)
qed

lemma check_nulls_absent:
  assumes "c \<in> set cs" "c \<notin> set (columns df)"
  shows "\<exists>absent. check_nulls df cs = Inl (LookupError absent) \<and> c \<in> set absent"
proof -
  let ?a = "first_seen (filter (\<lambda>c. c \<notin> set (columns df)) cs)"
  from assms have "c \<in> set ?a" by (simp add: set_first_seen)
  then obtain y ys where "?a = y # ys" by (cases ?a) auto
  then have "check_nulls df cs = Inl (LookupError ?a)" by (simp add: check_nulls_def)
  with \<open>c \<in> set ?a\<close> show ?thesis by blast
qed

text \<open>
  C1.  When the requested columns exist, the null check returns, for each of them, the
  number of rows whose value in that column is missing, and 0 for a column with no
  missing value.  (A request that names an absent column fails: see C6.)
\<close>

theorem check_nulls_counts:
  assumes "set cs \<subseteq> set (columns df)" and "c \<in> set cs" and "map_of df c = Some xs"
  shows "\<exists>r. check_nulls df cs = Inr r
           \<and> map_of r c = Some (length (filter (\<lambda>x. x = Missing) xs))
           \<and> ((\<forall>x \<in> set xs. x \<noteq> Missing) \<longrightarrow> map_of r c = Some 0)"
proof -
  let ?r = "map (\<lambda>c. (c, isnull_sum (column df c))) cs"
  have r: "check_nulls df cs = Inr ?r" using assms(1) by (rule check_nulls_present)
  have col: "column df c = xs" using assms(3) by (simp add: column_def)
  have m: "map_of ?r c = Some (isnull_sum xs)"
    using assms(2) col by (simp add: map_of_map_restrict)
  have z: "(\<forall>x \<in> set xs. x \<noteq> Missing) \<longrightarrow> isnull_sum xs = 0"
    by (simp add: isnull_sum_count filter_empty_conv)
  from r m z show ?thesis by (simp add: isnull_sum_count)
qed

theorem check_nulls_counts_witness:
  "set [''a'', ''c'', ''b''] \<subseteq> set (columns gaps_df)
   \<and> map_of gaps_df ''c'' = Some [Missing, Missing, Missing]
   \<and> (\<exists>r. check_nulls gaps_df [''a'', ''c'', ''b''] = Inr r \<and> map_of r ''c'' = Some 3)"
proof -
  have h1: "set [''a'', ''c'', ''b''] \<subseteq> set (columns gaps_df)"
    by (simp add: columns_def gaps_df_def)
  have h2: "''c'' \<in> set [''a'', ''c'', ''b'']" by simp
  have h3: "map_of gaps_df ''c'' = Some [Missing, Missing, Missing]" by (simp add: gaps_df_def)
  from check_nulls_counts [OF h1 h2 h3] h1 h3 show ?thesis by auto
qed

section \<open>Properties of the type check\<close>

lemma dominant_type_error: "dominant_type xs = Inl e \<Longrightarrow> e = EmptyDomainError"
  by (auto simp: dominant_type_def split: list.splits)

lemma dominant_type_all_missing:
  "\<forall>x \<in> set xs. x = Missing \<Longrightarrow> dominant_type xs = Inl EmptyDomainError"
proof -
  assume "\<forall>x \<in> set xs. x = Missing"
  then have "dropna xs = []" by (auto simp: dropna_def filter_empty_conv)
  then show ?thesis by (simp add: dominant_type_def mode_def first_seen_def)
qed






lemma types_loop_step_absent:
  "map_of df col = None \<Longrightarrow>
     check_data_types_loop df ((col, e) # rest) ms = check_data_types_loop df rest ms"
  by simp


lemma types_loop_step_error:
  "map_of df col = Some xs \<Longrightarrow> dominant_type xs = Inl err \<Longrightarrow>
     check_data_types_loop df ((col, e) # rest) ms = Inl err"
  by simp


lemma types_loop_all_missing:
  assumes "(c, e) \<in> set ex" and "map_of df c = Some xs" and "\<forall>x \<in> set xs. x = Missing"
  shows "check_data_types_loop df ex ms = Inl EmptyDomainError"
  using assms(1)
proof (induction ex arbitrary: ms)
  case Nil
  then show ?case by simp
next
  case (Cons r rest)
  obtain col e' where r: "r = (col, e')" by (cases r)
  show ?case
  proof (cases "r = (c, e)")
    case True
    then show ?thesis
      using assms(2) dominant_type_all_missing [OF assms(3)] by simp
  next
    case False
    with Cons.prems have "(c, e) \<in> set rest" by simp
    then have ih: "\<And>ms. check_data_types_loop df rest ms = Inl EmptyDomainError"
      by (rule Cons.IH)
    show ?thesis
    proof (cases "map_of df col")
      case None
      then show ?thesis using ih r by simp
    next
      case (Some ys)
      show ?thesis
      proof (cases "dominant_type ys")
        case (Inl err)
        then have "err = EmptyDomainError" by (rule dominant_type_error)
        then show ?thesis using Some Inl r by simp
      next
        case (Inr t)
        then show ?thesis using Some ih r by simp
      qed
    qed
  qed
qed

lemma types_loop_skip:
  assumes "map_of df c = None"
  shows "check_data_types_loop df (ex1 @ (c, e) # ex2) ms = check_data_types_loop df (ex1 @ ex2) ms"
proof (induction ex1 arbitrary: ms)
  case Nil
  then show ?case using assms by simp
next
  case (Cons r rest)
  obtain col e' where r: "r = (col, e')" by (cases r)
  show ?case using Cons.IH r by (simp split: option.splits sum.splits)
qed

lemma types_loop_no_entry:
  assumes "map_of df c = None"
  shows "check_data_types_loop df ex ms = Inr ms' \<Longrightarrow> map_of ms' c = map_of ms c"
proof (induction ex arbitrary: ms)
  case Nil
  then show ?case by simp
next
  case (Cons r rest)
  obtain col e' where r: "r = (col, e')" by (cases r)
  show ?case
  proof (cases "map_of df col")
    case None
    then show ?thesis using Cons r by simp
  next
    case (Some ys)
    with assms have ne: "c \<noteq> col" by auto
    show ?thesis
    proof (cases "dominant_type ys")
      case (Inl err)
      then show ?thesis using Some Cons.prems r by simp
    next
      case (Inr t)
      show ?thesis
      proof (cases "t \<noteq> e'")
        case True
        let ?ms1 = "AList.update col (''Expected '' @ e' @ '', Found '' @ t) ms"
        from True Some Inr Cons.prems r
        have "check_data_types_loop df rest ?ms1 = Inr ms'" by simp
        then have "map_of ms' c = map_of ?ms1 c" by (rule Cons.IH)
        then show ?thesis using ne by (simp add: update_conv')
      next
        case False
        with Some Inr Cons.prems r
        have "check_data_types_loop df rest ms = Inr ms'" by simp
        then show ?thesis by (rule Cons.IH)
      qed
    qed
  qed
qed

section \<open>Properties of the range check\<close>

lemma ranges_loop_absent:
  "map_of df col = None \<Longrightarrow>
     check_ranges_loop tn ((col, (lo, hi)) # rest) df v = check_ranges_loop tn rest df v"
  by simp

lemma ranges_loop_present:
  assumes "map_of df col = Some xs"
  shows "check_ranges_loop tn ((col, (lo, hi)) # rest) df v =
           check_ranges_loop tn rest (AList.update col (range_column tn xs) df)
             (case range_entry tn lo hi xs of None \<Rightarrow> v | Some r \<Rightarrow> AList.update col r v)"
proof (cases "tn xs")
  case (Inl e)
  have "AList.update col xs df = df" using assms by (rule update_triv)
  then show ?thesis using assms Inl by (simp add: range_column_def range_entry_def)
next
  case (Inr ys)
  then show ?thesis using assms
    by (simp add: range_column_def range_entry_def Let_def split: sum.splits)
qed

lemma ranges_loop_other:
  "c \<notin> fst ` set rules \<Longrightarrow>
     map_of (fst (check_ranges_loop tn rules df v)) c = map_of df c
     \<and> map_of (snd (check_ranges_loop tn rules df v)) c = map_of v c"
proof (induction rules arbitrary: df v)
  case Nil
  then show ?case by simp
next
  case (Cons r rest)
  obtain col lo hi where r: "r = (col, (lo, hi))" by (cases r) auto
  from Cons.prems r have ne: "c \<noteq> col" and nin: "c \<notin> fst ` set rest" by auto
  show ?case
  proof (cases "map_of df col")
    case None
    then show ?thesis using Cons.IH [OF nin] r by simp
  next
    case (Some xs)
    let ?df = "AList.update col (range_column tn xs) df"
    let ?v = "case range_entry tn lo hi xs of None \<Rightarrow> v | Some r \<Rightarrow> AList.update col r v"
    have a: "map_of ?df c = map_of df c" using ne by (simp add: update_conv')
    have b: "map_of ?v c = map_of v c" using ne by (simp add: update_conv' split: option.splits)
    have step: "check_ranges_loop tn (r # rest) df v = check_ranges_loop tn rest ?df ?v"
      unfolding r by (rule ranges_loop_present [OF Some])
    show ?thesis
      using Cons.IH [OF nin, of ?df ?v] a b by (simp only: step)
  qed
qed

lemma ranges_loop_rule:
  assumes "distinct (map fst rules)" and "(c, (lo, hi)) \<in> set rules" and "map_of df c = Some xs"
  shows "map_of (fst (check_ranges_loop tn rules df v)) c = Some (range_column tn xs)
         \<and> map_of (snd (check_ranges_loop tn rules df v)) c =
             (case range_entry tn lo hi xs of None \<Rightarrow> map_of v c | Some r \<Rightarrow> Some r)"
  using assms
proof (induction rules arbitrary: df v)
  case Nil
  then show ?case by simp
next
  case (Cons r rest)
  obtain col lo' hi' where r: "r = (col, (lo', hi'))" by (cases r) auto
  from Cons.prems(1) r have d: "distinct (map fst rest)" and fresh: "col \<notin> fst ` set rest"
    by auto
  show ?case
  proof (cases "col = c")
    case True
    with Cons.prems(2) r fresh have b: "lo' = lo" "hi' = hi" by (auto simp: image_iff)
    let ?df = "AList.update c (range_column tn xs) df"
    let ?v = "case range_entry tn lo hi xs of None \<Rightarrow> v | Some r \<Rightarrow> AList.update c r v"
    have step: "check_ranges_loop tn (r # rest) df v = check_ranges_loop tn rest ?df ?v"
      unfolding r b True [symmetric] using Cons.prems(3) True
      by (intro ranges_loop_present) simp
    have nin: "c \<notin> fst ` set rest" using fresh True by simp
    have a: "map_of ?df c = Some (range_column tn xs)" by (simp add: update_conv')
    have e: "map_of ?v c = (case range_entry tn lo hi xs of None \<Rightarrow> map_of v c | Some r \<Rightarrow> Some r)"
      by (simp add: update_conv' split: option.splits)
    show ?thesis using ranges_loop_other [OF nin, of tn ?df ?v] a e by (simp only: step)
  next
    case False
    with Cons.prems(2) r have mem: "(c, (lo, hi)) \<in> set rest" by auto
    show ?thesis
    proof (cases "map_of df col")
      case None
      then show ?thesis using Cons.IH [OF d mem Cons.prems(3), of v] r by simp
    next
      case (Some ys)
      let ?df = "AList.update col (range_column tn ys) df"
      let ?v = "case range_entry tn lo' hi' ys of None \<Rightarrow> v | Some r \<Rightarrow> AList.update col r v"
      have a: "map_of ?df c = Some xs" using False Cons.prems(3) by (simp add: update_conv')
      have e: "map_of ?v c = map_of v c" using False by (simp add: update_conv' split: option.splits)
      have step: "check_ranges_loop tn (r # rest) df v = check_ranges_loop tn rest ?df ?v"
        unfolding r by (rule ranges_loop_present [OF Some])
      show ?thesis
        using Cons.IH [OF d mem a, of ?v] by (simp only: step e)
    qed
  qed
qed

lemma ranges_loop_skip:
  assumes "map_of df c = None"
  shows "check_ranges_loop tn (rules1 @ (c, b) # rules2) df v
           = check_ranges_loop tn (rules1 @ rules2) df v"
  using assms
proof (induction rules1 arbitrary: df v)
  case Nil
  obtain lo hi where "b = (lo, hi)" by (cases b)
  then show ?case using Nil by simp
next
  case (Cons r rest)
  obtain col lo hi where r: "r = (col, (lo, hi))" by (cases r) auto
  show ?case
  proof (cases "map_of df col")
    case None
    then show ?thesis using Cons.IH [OF Cons.prems] r by simp
  next
    case (Some xs)
    with Cons.prems have ne: "c \<noteq> col" by auto
    let ?df = "AList.update col (range_column tn xs) df"
    have a: "map_of ?df c = None" using ne Cons.prems by (simp add: update_conv')
    show ?thesis using Cons.IH [OF a] by (simp add: r ranges_loop_present [OF Some] del: check_ranges_loop.simps)
  qed
qed

lemma ranges_loop_no_entry:
  assumes "map_of df c = None"
  shows "map_of (snd (check_ranges_loop tn rules df v)) c = map_of v c"
  using assms
proof (induction rules arbitrary: df v)
  case Nil
  then show ?case by simp
next
  case (Cons r rest)
  obtain col lo hi where r: "r = (col, (lo, hi))" by (cases r) auto
  show ?case
  proof (cases "map_of df col")
    case None
    then show ?thesis using Cons.IH [OF Cons.prems] r by simp
  next
    case (Some xs)
    with Cons.prems have ne: "c \<noteq> col" by auto
    let ?df = "AList.update col (range_column tn xs) df"
    let ?v = "case range_entry tn lo hi xs of None \<Rightarrow> v | Some r \<Rightarrow> AList.update col r v"
    have a: "map_of ?df c = None" using ne Cons.prems by (simp add: update_conv')
    have e: "map_of ?v c = map_of v c" using ne by (simp add: update_conv' split: option.splits)
    have step: "check_ranges_loop tn (r # rest) df v = check_ranges_loop tn rest ?df ?v"
      unfolding r by (rule ranges_loop_present [OF Some])
    show ?thesis using Cons.IH [OF a, of ?v] by (simp only: step e)
  qed
qed

lemma ranges_loop_columns:
  "columns (fst (check_ranges_loop tn rules df v)) = columns df"
proof (induction rules arbitrary: df v)
  case Nil
  then show ?case by simp
next
  case (Cons r rest)
  obtain col lo hi where r: "r = (col, (lo, hi))" by (cases r) auto
  show ?case
  proof (cases "map_of df col")
    case None
    then show ?thesis using Cons.IH r by simp
  next
    case (Some xs)
    then have "col \<in> set (map fst df)" by (auto dest: map_of_SomeD intro: rev_image_eqI)
    then have "columns (AList.update col (range_column tn xs) df) = columns df"
      by (simp add: columns_def update_keys)
    then show ?thesis using Cons.IH by (simp add: r ranges_loop_present [OF Some] del: check_ranges_loop.simps)
  qed
qed

lemma length_pd_to_numeric: "length (pd_to_numeric parse xs) = length xs"
  by (simp add: pd_to_numeric_def Let_def)

lemma coerce_not_str: "\<not> is_str (coerce parse x)"
  by (cases x) (auto split: option.splits number.splits)

lemma as_float_not_str: "\<not> is_str x \<Longrightarrow> \<not> is_str (as_float x)"
  by (cases x) auto

lemma as_int_not_str: "\<not> is_str x \<Longrightarrow> \<not> is_str (as_int x)"
  by (cases x) auto

lemma pd_to_numeric_no_str: "\<not> list_ex is_str (pd_to_numeric parse xs)"
  by (auto simp: pd_to_numeric_def Let_def list_ex_iff coerce_not_str as_float_not_str as_int_not_str)

lemma pd_to_numeric_missing:
  assumes "i < length xs" and "coerce parse (xs ! i) = Missing"
  shows "pd_to_numeric parse xs ! i = Missing"
proof -
  let ?ys = "map (coerce parse) xs"
  have "?ys ! i \<in> set ?ys" by (rule nth_mem) (simp add: assms(1))
  moreover have "?ys ! i = Missing" using assms by simp
  ultimately have "list_ex (\<lambda>y. is_float y \<or> isnull y) ?ys"
    unfolding list_ex_iff by (metis isnull.simps(1))
  then have "pd_to_numeric parse xs = map as_float ?ys" by (simp add: pd_to_numeric_def Let_def)
  then show ?thesis using assms by simp
qed

lemma in_bounds_coerce: "in_bounds lo hi x \<Longrightarrow> coerce parse x = x"
  by (cases x) auto

lemma in_bounds_as_float: "in_bounds lo hi x \<Longrightarrow> in_bounds lo hi (as_float x)"
  by (cases x) auto

lemma in_bounds_as_int: "in_bounds lo hi x \<Longrightarrow> as_int x = x"
  by (cases x) auto

lemma pd_to_numeric_in_bounds:
  assumes "list_all (in_bounds lo hi) xs"
  shows "list_all (in_bounds lo hi) (pd_to_numeric parse xs)"
proof -
  from assms have c: "map (coerce parse) xs = xs"
    by (intro map_idI) (auto simp: list_all_iff in_bounds_coerce)
  from assms have f: "list_all (in_bounds lo hi) (map as_float xs)"
    by (simp add: list_all_iff in_bounds_as_float)
  from assms have i: "map as_int xs = xs"
    by (intro map_idI) (auto simp: list_all_iff in_bounds_as_int)
  show ?thesis using assms f by (simp add: pd_to_numeric_def Let_def c i)
qed

lemma in_bounds_not_outside: "in_bounds lo hi x \<Longrightarrow> \<not> outside lo hi x"
  by (cases x) (auto simp: outside_def)

lemma in_bounds_not_str: "in_bounds lo hi x \<Longrightarrow> \<not> is_str x"
  by (cases x) auto

lemma boolean_index_map:
  "length js = length ys \<Longrightarrow>
     boolean_index (zip js ys) (map P ys) = filter (\<lambda>(j, v). P v) (zip js ys)"
  by (induction js ys rule: list_induct2) (simp_all add: boolean_index_def)

lemma outside_iff:
  "outside lo hi v \<longleftrightarrow> (\<exists>q. cell_number v = Some q \<and> (q < lo \<or> hi < q))"
  by (auto simp: outside_def split: option.splits)

lemma range_entry_pandas:
  "range_entry (pandas parse) lo hi xs =
     (let ys = pd_to_numeric parse xs;
          viol = filter (\<lambda>(i, v). outside lo hi v) (zip [0..<length ys] ys)
      in if viol = [] then None else Some (Violations viol))"
proof -
  let ?ys = "pd_to_numeric parse xs"
  have m: "compare_mask lo hi ?ys = Inr (map (outside lo hi) ?ys)"
    using pd_to_numeric_no_str [of parse xs] by (simp add: compare_mask_def)
  have b: "boolean_index (zip [0..<length ?ys] ?ys) (map (outside lo hi) ?ys)
             = filter (\<lambda>(i, v). outside lo hi v) (zip [0..<length ?ys] ?ys)"
    by (rule boolean_index_map) simp
  show ?thesis by (simp add: range_entry_def m b Let_def)
qed

lemma range_entry_in_bounds:
  assumes "list_all (in_bounds lo hi) xs"
  shows "range_entry (pandas parse) lo hi xs = None"
proof -
  let ?ys = "pd_to_numeric parse xs"
  have w: "list_all (in_bounds lo hi) ?ys" using assms by (rule pd_to_numeric_in_bounds)
  have "filter (\<lambda>(i, v). outside lo hi v) (zip [0..<length ?ys] ?ys) = []"
    using w by (auto simp: filter_empty_conv list_all_iff in_bounds_not_outside dest: set_zip_rightD)
  then show ?thesis by (simp add: range_entry_pandas Let_def)
qed

lemma ranges_loop_in_bounds:
  assumes "\<forall>(c, (lo, hi)) \<in> set R. \<forall>xs. map_of df c = Some xs \<longrightarrow> list_all (in_bounds lo hi) xs"
      and "set rules \<subseteq> set R"
  shows "snd (check_ranges_loop (pandas parse) rules df v) = v
         \<and> (\<forall>(c, (lo, hi)) \<in> set R. \<forall>xs.
               map_of (fst (check_ranges_loop (pandas parse) rules df v)) c = Some xs
                 \<longrightarrow> list_all (in_bounds lo hi) xs)"
  using assms
proof (induction rules arbitrary: df)
  case Nil
  then show ?case by simp
next
  case (Cons r rest)
  obtain col lo hi where r: "r = (col, (lo, hi))" by (cases r) auto
  from Cons.prems(2) have sub: "set rest \<subseteq> set R" and rR: "(col, (lo, hi)) \<in> set R"
    using r by auto
  show ?case
  proof (cases "map_of df col")
    case None
    then show ?thesis using Cons.IH [OF Cons.prems(1) sub] r by simp
  next
    case (Some xs)
    let ?df = "AList.update col (pd_to_numeric parse xs) df"
    from Cons.prems(1) rR Some have w: "list_all (in_bounds lo hi) xs" by blast
    have e: "range_entry (pandas parse) lo hi xs = None" using w by (rule range_entry_in_bounds)
    have step: "check_ranges_loop (pandas parse) (r # rest) df v
                  = check_ranges_loop (pandas parse) rest ?df v"
      unfolding r using ranges_loop_present [OF Some, of "pandas parse" lo hi rest v]
      by (simp add: e range_column_def del: check_ranges_loop.simps)
    have inv: "\<forall>(c, (lo, hi)) \<in> set R. \<forall>zs. map_of ?df c = Some zs \<longrightarrow> list_all (in_bounds lo hi) zs"
    proof (clarify)
      fix c lo' hi' zs
      assume m: "(c, (lo', hi')) \<in> set R" and z: "map_of ?df c = Some zs"
      show "list_all (in_bounds lo' hi') zs"
      proof (cases "c = col")
        case True
        with z have zs: "zs = pd_to_numeric parse xs" by (simp add: update_conv')
        from Cons.prems(1) m Some True have "list_all (in_bounds lo' hi') xs" by blast
        then show ?thesis unfolding zs by (rule pd_to_numeric_in_bounds)
      next
        case False
        with z have "map_of df c = Some zs" by (simp add: update_conv')
        with Cons.prems(1) m show ?thesis by blast
      qed
    qed
    show ?thesis unfolding step by (rule Cons.IH [OF inv sub])
  qed
qed

section \<open>Results of the type check; absent columns\<close>




text \<open>
  C8.  When the expected types target a column of the frame whose values are all
  missing (or that has no row), the type check raises from \<^verbatim>\<open>mode()[0]\<close> and returns
  no result; nothing in the check catches it.
\<close>

theorem check_data_types_all_missing:
  assumes "(c, e) \<in> set expected_types" and "map_of df c = Some xs"
      and "\<forall>x \<in> set xs. x = Missing"
  shows "check_data_types df expected_types = Inl EmptyDomainError"
  unfolding check_data_types_def using assms by (rule types_loop_all_missing)

theorem check_data_types_all_missing_witness:
  "map_of gaps_df ''c'' = Some [Missing, Missing, Missing]
   \<and> check_data_types gaps_df [(''a'', ''int''), (''c'', ''float'')] = Inl EmptyDomainError"
proof -
  have h1: "(''c'', ''float'') \<in> set [(''a'', ''int''), (''c'', ''float'')]" by simp
  have h2: "map_of gaps_df ''c'' = Some [Missing, Missing, Missing]" by (simp add: gaps_df_def)
  have h3: "\<forall>x \<in> set [Missing, Missing, Missing]. x = Missing" by simp
  from check_data_types_all_missing [OF h1 h2 h3] h2 show ?thesis by simp
qed

text \<open>
  C6.  For a name that is not a column of the frame: the null check raises
  (\<^verbatim>\<open>KeyError\<close>, naming it), while the type check and the range check run as if the
  rule for that name were not there, and their results have no entry for it.
\<close>

theorem absent_column_asymmetry:
  assumes "c \<notin> set (columns df)"
  shows "(c \<in> set cs \<longrightarrow> (\<exists>absent. check_nulls df cs = Inl (LookupError absent) \<and> c \<in> set absent))
       \<and> check_data_types df (ex1 @ (c, e) # ex2) = check_data_types df (ex1 @ ex2)
       \<and> (\<forall>ms. check_data_types df ex = Inr ms \<longrightarrow> map_of ms c = None)
       \<and> check_ranges tn df (rules1 @ (c, b) # rules2) = check_ranges tn df (rules1 @ rules2)
       \<and> map_of (snd (check_ranges tn df rules)) c = None"
proof -
  from assms have n: "map_of df c = None" by (simp add: map_of_absent)
  have 1: "c \<in> set cs \<longrightarrow> (\<exists>absent. check_nulls df cs = Inl (LookupError absent) \<and> c \<in> set absent)"
    using assms by (blast intro: check_nulls_absent)
  have 2: "check_data_types df (ex1 @ (c, e) # ex2) = check_data_types df (ex1 @ ex2)"
    unfolding check_data_types_def using n by (rule types_loop_skip)
  have 3: "\<forall>ms. check_data_types df ex = Inr ms \<longrightarrow> map_of ms c = None"
    unfolding check_data_types_def using types_loop_no_entry [OF n, of ex "[]"] by simp
  have 4: "check_ranges tn df (rules1 @ (c, b) # rules2) = check_ranges tn df (rules1 @ rules2)"
    unfolding check_ranges_def using n by (rule ranges_loop_skip)
  have 5: "map_of (snd (check_ranges tn df rules)) c = None"
    unfolding check_ranges_def using ranges_loop_no_entry [OF n, of tn rules "[]"] by simp
  from 1 2 3 4 5 show ?thesis by blast
qed

theorem absent_column_asymmetry_witness:
  "''zz'' \<notin> set (columns scenario_df)
   \<and> check_nulls scenario_df [''a'', ''zz''] = Inl (LookupError [''zz''])
   \<and> check_data_types scenario_df [(''zz'', ''int''), (''b'', ''int'')]
       = Inr [(''b'', ''Expected int, Found str'')]
   \<and> snd (check_ranges (pandas parse_seven) scenario_df [(''zz'', (0, 3)), (''a'', (0, 3))])
       = [(''a'', Violations [(1, IntV 5)])]"
proof -
  have h: "''zz'' \<notin> set (columns scenario_df)" by (simp add: columns_def scenario_df_def)
  have n: "check_nulls scenario_df [''a'', ''zz''] = Inl (LookupError [''zz''])"
    by (simp add: check_nulls_def columns_def scenario_df_def first_seen_def)
  have t0: "check_data_types scenario_df [(''b'', ''int'')] = Inr [(''b'', ''Expected int, Found str'')]"
    by (simp add: check_data_types_def scenario_df_def dominant_type_def dropna_def mode_def
        first_seen_def)
  have r0: "snd (check_ranges (pandas parse_seven) scenario_df [(''a'', (0, 3))])
              = [(''a'', Violations [(1, IntV 5)])]"
    by (simp add: check_ranges_def scenario_df_def pd_to_numeric_def compare_mask_def
        outside_def boolean_index_def)
  from absent_column_asymmetry [OF h, of _ "[]" "''int''" "[(''b'', ''int'')]" _
      "pandas parse_seven" "[]" "(0, 3)" "[(''a'', (0, 3))]"]
  have "check_data_types scenario_df [(''zz'', ''int''), (''b'', ''int'')]
          = check_data_types scenario_df [(''b'', ''int'')]"
    and "check_ranges (pandas parse_seven) scenario_df [(''zz'', (0, 3)), (''a'', (0, 3))]
          = check_ranges (pandas parse_seven) scenario_df [(''a'', (0, 3))]"
    by simp_all
  with h n t0 r0 show ?thesis by simp
qed

section \<open>Results of the range check\<close>

lemma cell_number_coerce: "cell_number (coerce parse x) = spec_number parse x"
  by (cases x) (auto split: option.splits number.splits)

lemma cell_number_as_float: "cell_number (as_float x) = cell_number x"
  by (cases x) auto

lemma cell_number_as_int: "cell_number (as_int x) = cell_number x"
  by (cases x) auto

lemma holds_number_iff: "holds_number v q \<longleftrightarrow> \<not> is_str v \<and> cell_number v = q"
  by (cases v) auto

lemma pd_to_numeric_nth:
  assumes "i < length xs"
  shows "holds_number (pd_to_numeric parse xs ! i) (spec_number parse (xs ! i))"
proof -
  have n: "\<not> is_str (pd_to_numeric parse xs ! i)"
    using pd_to_numeric_no_str [of parse xs] assms
    by (auto simp: list_ex_iff length_pd_to_numeric)
  have "cell_number (pd_to_numeric parse xs ! i) = spec_number parse (xs ! i)"
    using assms
    by (simp add: pd_to_numeric_def Let_def cell_number_as_float cell_number_as_int
        cell_number_coerce)
  with n show ?thesis by (simp add: holds_number_iff)
qed






lemma compare_mask_text:
  "StrV s \<in> set ys \<Longrightarrow> \<exists>e. compare_mask lo hi ys = Inl e"
  by (auto simp: compare_mask_def list_ex_iff intro: bexI [of _ "StrV s"])

text \<open>
  C5.  The range check returns a frame and a mapping whatever the library call does
  (its result has no exception; every statement that can raise stands in the
  \<^verbatim>\<open>try\<close>).  For a rule on a column of the frame: when the coercion raises, or the
  comparison raises because the converted column holds a text, the column's entry is
  the text \<^verbatim>\<open>Error: \<close> followed by the exception's; and the entry of every rule is the
  entry the rule gives when it is run alone, so an exception at one column leaves the
  results of the others as they are.
\<close>

theorem check_ranges_catches:
  assumes "distinct (map fst rules)" and "(c, (lo, hi)) \<in> set rules"
      and "map_of df c = Some xs"
  shows "let out = snd (check_ranges tn df rules) in
           (\<forall>e. tn xs = Inl e \<longrightarrow> map_of out c = Some (ErrorText (''Error: '' @ e)))
         \<and> (\<forall>ys s. tn xs = Inr ys \<and> StrV s \<in> set ys \<longrightarrow>
               (\<exists>e. map_of out c = Some (ErrorText (''Error: '' @ e))))
         \<and> map_of out c = map_of (snd (check_ranges tn df [(c, (lo, hi))])) c"
proof -
  let ?out = "snd (check_ranges tn df rules)"
  have e: "map_of ?out c = range_entry tn lo hi xs"
    unfolding check_ranges_def using ranges_loop_rule [OF assms, of tn "[]"]
    by (simp split: option.splits)
  have one: "map_of (snd (check_ranges tn df [(c, (lo, hi))])) c = range_entry tn lo hi xs"
    unfolding check_ranges_def
    using ranges_loop_rule [of "[(c, (lo, hi))]" c lo hi df xs tn "[]"] assms(3)
    by (simp split: option.splits)
  have 1: "\<forall>e. tn xs = Inl e \<longrightarrow> map_of ?out c = Some (ErrorText (''Error: '' @ e))"
    by (simp add: e range_entry_def)
  have 2: "\<forall>ys s. tn xs = Inr ys \<and> StrV s \<in> set ys \<longrightarrow>
               (\<exists>e. map_of ?out c = Some (ErrorText (''Error: '' @ e)))"
  proof (intro allI impI, elim conjE)
    fix ys s
    assume t: "tn xs = Inr ys" and s: "StrV s \<in> set ys"
    from s obtain m where "compare_mask lo hi ys = Inl m" using compare_mask_text by blast
    with t have "map_of ?out c = Some (ErrorText (''Error: '' @ m))"
      by (simp add: e range_entry_def)
    then show "\<exists>e. map_of ?out c = Some (ErrorText (''Error: '' @ e))" by blast
  qed
  have 3: "map_of ?out c = map_of (snd (check_ranges tn df [(c, (lo, hi))])) c"
    by (simp add: e one)
  from 1 2 3 show ?thesis unfolding Let_def by blast
qed

theorem check_ranges_catches_witness:
  "distinct (map fst [(''b'', (0, 3)), (''a'', (0, 3))])
   \<and> fails_on_text [StrV ''x'', StrV ''x'', StrV ''x''] = Inl ''boom''
   \<and> snd (check_ranges fails_on_text scenario_df [(''b'', (0, 3)), (''a'', (0, 3))])
       = [(''b'', ErrorText ''Error: boom''), (''a'', Violations [(1, IntV 5)])]"
proof -
  let ?rules = "[(''b'', (0, 3)), (''a'', (0, 3))] :: range_rules"
  have h1: "distinct (map fst ?rules)" by simp
  have h2: "(''b'', (0, 3)) \<in> set ?rules" by simp
  have h3: "map_of scenario_df ''b'' = Some [StrV ''x'', StrV ''x'', StrV ''x'']"
    by (simp add: scenario_df_def)
  have f: "fails_on_text [StrV ''x'', StrV ''x'', StrV ''x''] = Inl ''boom''"
    by (simp add: fails_on_text_def)
  from check_ranges_catches [OF h1 h2 h3, of fails_on_text] f
  have b: "map_of (snd (check_ranges fails_on_text scenario_df ?rules)) ''b''
             = Some (ErrorText ''Error: boom'')"
    by (simp add: Let_def)
  have "snd (check_ranges fails_on_text scenario_df ?rules)
          = [(''b'', ErrorText ''Error: boom''), (''a'', Violations [(1, IntV 5)])]"
    by (simp add: check_ranges_def scenario_df_def fails_on_text_def compare_mask_def
        outside_def boolean_index_def)
  with h1 f b show ?thesis by simp
qed

lemma isnull_coerce: "isnull (coerce parse x) \<longleftrightarrow> spec_number parse x = None"
  by (cases x) (auto split: option.splits number.splits)

lemma isnull_as_float: "isnull (as_float x) = isnull x"
  by (cases x) auto

lemma isnull_as_int: "isnull (as_int x) = isnull x"
  by (cases x) auto

lemma isnull_sum_pd_to_numeric:
  "isnull_sum (pd_to_numeric parse xs) = length (filter (\<lambda>x. spec_number parse x = None) xs)"
  by (simp add: pd_to_numeric_def Let_def isnull_sum_def filter_map comp_def
      isnull_as_float isnull_as_int isnull_coerce)

text \<open>
  C7.  The null, duplicate and type checks leave the frame as it is.  The range check
  (with pandas' coercion) keeps the columns and their order, leaves the columns without
  a rule as they are, and replaces each column that has a rule by its coercion: the
  same number of rows, each cell holding the number its value reads as and missing when
  it reads as none.  A null check run afterwards on such a column counts the values
  that were missing or unreadable.
\<close>

theorem only_check_ranges_mutates:
  assumes "distinct (map fst rules)"
  shows "fst (run_check tn (NullCheck cs) df) = df
       \<and> fst (run_check tn DuplicateCheck df) = df
       \<and> fst (run_check tn (TypeCheck ex) df) = df
       \<and> (let df' = fst (run_check (pandas parse) (RangeCheck rules) df) in
            map fst df' = map fst df
          \<and> (\<forall>c. c \<notin> fst ` set rules \<longrightarrow> map_of df' c = map_of df c)
          \<and> (\<forall>c xs. c \<in> fst ` set rules \<and> map_of df c = Some xs \<longrightarrow>
               (\<exists>ys. map_of df' c = Some ys \<and> length ys = length xs
                  \<and> (\<forall>i<length xs. holds_number (ys ! i) (spec_number parse (xs ! i)))
                  \<and> check_nulls df' [c]
                      = Inr [(c, length (filter (\<lambda>x. spec_number parse x = None) xs))])))"
proof -
  let ?df = "fst (check_ranges_loop (pandas parse) rules df [])"
  have run: "fst (run_check (pandas parse) (RangeCheck rules) df) = ?df"
    by (simp add: check_ranges_def split: prod.splits)
  have cols: "map fst ?df = map fst df"
    using ranges_loop_columns [of "pandas parse" rules df "[]"] by (simp add: columns_def)
  have other: "\<forall>c. c \<notin> fst ` set rules \<longrightarrow> map_of ?df c = map_of df c"
    using ranges_loop_other [of _ rules "pandas parse" df "[]"] by blast
  have target: "\<forall>c xs. c \<in> fst ` set rules \<and> map_of df c = Some xs \<longrightarrow>
               (\<exists>ys. map_of ?df c = Some ys \<and> length ys = length xs
                  \<and> (\<forall>i<length xs. holds_number (ys ! i) (spec_number parse (xs ! i)))
                  \<and> check_nulls ?df [c]
                      = Inr [(c, length (filter (\<lambda>x. spec_number parse x = None) xs))])"
  proof (intro allI impI, elim conjE)
    fix c xs
    assume c: "c \<in> fst ` set rules" and x: "map_of df c = Some xs"
    from c obtain lo hi where m: "(c, (lo, hi)) \<in> set rules" by auto
    let ?ys = "pd_to_numeric parse xs"
    have y: "map_of ?df c = Some ?ys"
      using ranges_loop_rule [OF assms m x, of "pandas parse" "[]"]
      by (simp add: range_column_def)
    then have "c \<in> set (columns ?df)" by (metis map_of_absent option.distinct(1))
    then have "check_nulls ?df [c] = Inr [(c, isnull_sum (column ?df c))]"
      using check_nulls_present [of "[c]" ?df] by simp
    then have n: "check_nulls ?df [c]
                    = Inr [(c, length (filter (\<lambda>x. spec_number parse x = None) xs))]"
      using y by (simp add: column_def isnull_sum_pd_to_numeric)
    have h: "\<forall>i<length xs. holds_number (?ys ! i) (spec_number parse (xs ! i))"
      by (simp add: pd_to_numeric_nth)
    from y n h show "\<exists>ys. map_of ?df c = Some ys \<and> length ys = length xs
                  \<and> (\<forall>i<length xs. holds_number (ys ! i) (spec_number parse (xs ! i)))
                  \<and> check_nulls ?df [c]
                      = Inr [(c, length (filter (\<lambda>x. spec_number parse x = None) xs))]"
      using length_pd_to_numeric by blast
  qed
  have pure: "fst (run_check tn (NullCheck cs) df) = df"
    "fst (run_check tn DuplicateCheck df) = df"
    "fst (run_check tn (TypeCheck ex) df) = df"
    by simp_all
  from pure cols other target show ?thesis unfolding Let_def run by blast
qed

theorem only_check_ranges_mutates_witness:
  "distinct (map fst [(''b'', (0::rat, 10::rat))])
   \<and> map_of gaps_df ''b'' = Some [StrV ''7'', Missing, StrV ''oops'']
   \<and> check_nulls gaps_df [''b''] = Inr [(''b'', 1)]
   \<and> fst (run_check (pandas parse_seven) (RangeCheck [(''b'', (0, 10))]) gaps_df)
       = [(''a'', [IntV 1, IntV 5, IntV 1]), (''b'', [FloatV 7, Missing, Missing]),
          (''c'', [Missing, Missing, Missing])]
   \<and> check_nulls (fst (run_check (pandas parse_seven) (RangeCheck [(''b'', (0, 10))]) gaps_df)) [''b'']
       = Inr [(''b'', 2)]"
proof -
  let ?rules = "[(''b'', (0, 10))] :: range_rules"
  let ?df = "fst (run_check (pandas parse_seven) (RangeCheck ?rules) gaps_df)"
  have h1: "distinct (map fst ?rules)" by simp
  have h2: "map_of gaps_df ''b'' = Some [StrV ''7'', Missing, StrV ''oops'']"
    by (simp add: gaps_df_def)
  have before: "check_nulls gaps_df [''b''] = Inr [(''b'', 1)]"
    by (simp add: check_nulls_def columns_def gaps_df_def first_seen_def column_def isnull_sum_def)
  have after: "?df = [(''a'', [IntV 1, IntV 5, IntV 1]), (''b'', [FloatV 7, Missing, Missing]),
          (''c'', [Missing, Missing, Missing])]"
    by (simp add: check_ranges_def gaps_df_def pd_to_numeric_def compare_mask_def
        outside_def boolean_index_def parse_seven_def)
  from only_check_ranges_mutates [OF h1, of _ _ gaps_df _ parse_seven] h2
  have "check_nulls ?df [''b'']
          = Inr [(''b'', length (filter (\<lambda>x. spec_number parse_seven x = None)
                                  [StrV ''7'', Missing, StrV ''oops'']))]"
    unfolding Let_def by (metis (no_types, lifting) fst_conv image_eqI list.set_intros(1))
  then have "check_nulls ?df [''b''] = Inr [(''b'', 2)]" by (simp add: parse_seven_def)
  with h1 h2 before after show ?thesis by simp
qed

lemma in_bounds_iff:
  "in_bounds lo hi x \<longleftrightarrow>
     (\<exists>n. x = IntV n \<and> lo \<le> of_int n \<and> of_int n \<le> hi) \<or> (\<exists>f. x = FloatV f \<and> lo \<le> f \<and> f \<le> hi)"
  by (cases x) auto

text \<open>
  C10.  When every column a rule names holds only numbers within the rule's bounds, the
  range check returns an empty mapping, and run again on the frame it left it returns
  an empty mapping again.
\<close>

theorem check_ranges_twice_in_bounds:
  assumes "\<forall>(c, (lo, hi)) \<in> set rules. \<forall>xs. map_of df c = Some xs \<longrightarrow>
             (\<forall>x \<in> set xs. (\<exists>n. x = IntV n \<and> lo \<le> of_int n \<and> of_int n \<le> hi)
                           \<or> (\<exists>f. x = FloatV f \<and> lo \<le> f \<and> f \<le> hi))"
  shows "snd (check_ranges (pandas parse) df rules) = []
       \<and> snd (check_ranges (pandas parse) (fst (check_ranges (pandas parse) df rules)) rules) = []"
proof -
  from assms have inv: "\<forall>(c, (lo, hi)) \<in> set rules. \<forall>xs. map_of df c = Some xs \<longrightarrow>
                          list_all (in_bounds lo hi) xs"
    by (simp add: list_all_iff in_bounds_iff split_beta)
  let ?df = "fst (check_ranges_loop (pandas parse) rules df [])"
  from ranges_loop_in_bounds [OF inv subset_refl, of parse "[]"]
  have first: "snd (check_ranges_loop (pandas parse) rules df []) = []"
    and inv': "\<forall>(c, (lo, hi)) \<in> set rules. \<forall>xs. map_of ?df c = Some xs \<longrightarrow>
                 list_all (in_bounds lo hi) xs"
    by blast+
  from ranges_loop_in_bounds [OF inv' subset_refl, of parse "[]"]
  have second: "snd (check_ranges_loop (pandas parse) rules ?df []) = []" by blast
  from first second show ?thesis by (simp add: check_ranges_def)
qed

theorem check_ranges_twice_in_bounds_witness:
  "map_of scenario_df ''a'' = Some [IntV 1, IntV 5, IntV 1]
   \<and> snd (check_ranges (pandas parse_seven) scenario_df [(''a'', (0, 10))]) = []
   \<and> snd (check_ranges (pandas parse_seven)
            (fst (check_ranges (pandas parse_seven) scenario_df [(''a'', (0, 10))]))
            [(''a'', (0, 10))]) = []"
proof -
  have h: "\<forall>(c, (lo, hi)) \<in> set [(''a'', (0::rat, 10::rat))]. \<forall>xs.
             map_of scenario_df c = Some xs \<longrightarrow>
             (\<forall>x \<in> set xs. (\<exists>n. x = IntV n \<and> lo \<le> of_int n \<and> of_int n \<le> hi)
                           \<or> (\<exists>f. x = FloatV f \<and> lo \<le> f \<and> f \<le> hi))"
    by (simp add: scenario_df_def)
  have m: "map_of scenario_df ''a'' = Some [IntV 1, IntV 5, IntV 1]"
    by (simp add: scenario_df_def)
  from check_ranges_twice_in_bounds [OF h, of parse_seven] m show ?thesis by simp
qed

section \<open>What the duplicate check returns\<close>

text \<open>
  On a frame without a column \<^verbatim>\<open>dup_count\<close> the check returns one entry for each
  distinct row that occurs at least twice and has no missing value, with the number of
  its occurrences, and nothing else.
\<close>

lemma boolean_index_filter: "boolean_index rs (map P rs) = filter P rs"
  by (induction rs) (simp_all add: boolean_index_def)

lemma count_list_filter:
  "count_list (filter P rs) k = (if P k then count_list rs k else 0)"
  by (induction rs) auto

lemma check_duplicates_entries:
  assumes "''dup_count'' \<notin> set (columns df)"
  shows "\<exists>gs. check_duplicates df = Inr gs \<and> distinct (map fst gs)
           \<and> (\<forall>k n. (k, n) \<in> set gs \<longleftrightarrow>
                  Missing \<notin> set k \<and> n = count_list (rows_of df) k \<and> 2 \<le> n)"
proof -
  let ?rs = "rows_of df"
  let ?P = "\<lambda>r. 2 \<le> count_list ?rs r \<and> \<not> list_ex isnull r"
  let ?kept = "filter ?P ?rs"
  let ?gs = "map (\<lambda>k. (k, count_list ?kept k)) (remdups ?kept)"
  have dups: "boolean_index ?rs (duplicated ?rs) = filter (\<lambda>r. 2 \<le> count_list ?rs r) ?rs"
    by (simp add: duplicated_def boolean_index_filter)
  have run: "check_duplicates df = Inr ?gs"
    using assms by (simp add: check_duplicates_def reset_index_def groupby_size_def dups Let_def
        conj_commute)
  have d: "distinct (map fst ?gs)" by (simp add: comp_def)
  have nulls: "\<And>k. list_ex isnull k \<longleftrightarrow> Missing \<in> set k"
    by (auto simp: list_ex_iff isnull_iff)
  have mem: "\<And>k. 2 \<le> count_list ?rs k \<Longrightarrow> k \<in> set ?rs"
    by (metis count_list_0_iff not_numeral_le_zero)
  have "\<forall>k n. (k, n) \<in> set ?gs \<longleftrightarrow>
          Missing \<notin> set k \<and> n = count_list ?rs k \<and> 2 \<le> n"
    by (auto simp: count_list_filter nulls mem)
  with run d show ?thesis by blast
qed

section \<open>Duplicate rows with missing values\<close>

text \<open>
  C9.  Two rows that agree in every column and are both missing in column \<open>a\<close>:
  \<^verbatim>\<open>duplicated(keep=False)\<close> marks both, and \<^verbatim>\<open>groupby\<close> (default \<^verbatim>\<open>dropna=True\<close>)
  then drops them, so the check returns no entry where the claim has one with count 2.
\<close>

theorem check_duplicates_missing_pair:
  "wf_dataframe nan_pair_df
   \<and> rows_of nan_pair_df = [[Missing, StrV ''x''], [Missing, StrV ''x'']]
   \<and> duplicated (rows_of nan_pair_df) = [True, True]
   \<and> check_duplicates nan_pair_df = Inr []"
  by (simp add: nan_pair_df_def wf_dataframe_def columns_def nrows_def duplicated_def
      check_duplicates_def reset_index_def groupby_size_def boolean_index_def)

text \<open>
  C2.  The row \<open>(1, missing)\<close> occurs twice and has no entry in the result; only the
  repeated row without a missing value has one.
\<close>

theorem check_duplicates_incomplete:
  "wf_dataframe nan_groups_df
   \<and> count_list (rows_of nan_groups_df) [IntV 1, Missing] = 2
   \<and> check_duplicates nan_groups_df = Inr [([IntV 2, StrV ''y''], 2)]"
  by (simp add: nan_groups_df_def wf_dataframe_def columns_def nrows_def duplicated_def
      check_duplicates_def reset_index_def groupby_size_def boolean_index_def)

end
